theory Spec2Isabelle
  imports Main "HOL-Library.Word" "HOL-Library.Monad_Syntax"
begin

section \<open>EchoBot 9000: the POST /chat handler of netlify/functions/api.js\<close>

text \<open>
  The backend is one Express route handler. It reads \<open>req.body.message\<close>, validates it,
  computes a reply with two string rules and answers with a JSON object and a status code.
  The model below follows the handler statement by statement. The values of JavaScript
  that the handler can meet are a datatype, strings are sequences of UTF-16 code units,
  every \<open>throw\<close> is the \<open>Inl\<close> branch of a sum, and the reading of the wall clock made by
  \<open>new Date()\<close> on the path that builds the response is an argument of the handler.
  The calls to \<open>console.log\<close> and \<open>console.error\<close> only write to the function log: they
  return nothing, cannot fail and do not touch the response, and are left out.
\<close>

subsection \<open>JavaScript strings\<close>

type_synonym code_unit = "16 word"
type_synonym jsstring = "code_unit list"

text \<open>A string literal of the source, as code units (the literals are all ASCII).\<close>

definition js :: "string \<Rightarrow> jsstring" where
  "js s = map of_char s"

text \<open>
  \<open>String.prototype.trim\<close> removes WhiteSpace and LineTerminator code points from both
  ends: TAB, LF, VT, FF, CR, SP, NBSP, U+1680, U+2000..U+200A, U+2028, U+2029, U+202F,
  U+205F, U+3000 and U+FEFF. All of them are single code units.
\<close>

definition isWhiteSpace :: "code_unit \<Rightarrow> bool" where
  "isWhiteSpace c \<longleftrightarrow>
     c = 0x09 \<or> c = 0x0A \<or> c = 0x0B \<or> c = 0x0C \<or> c = 0x0D \<or> c = 0x20 \<or> c = 0xA0 \<or>
     c = 0x1680 \<or> (0x2000 \<le> c \<and> c \<le> 0x200A) \<or> c = 0x2028 \<or> c = 0x2029 \<or>
     c = 0x202F \<or> c = 0x205F \<or> c = 0x3000 \<or> c = 0xFEFF"

definition trimStart :: "jsstring \<Rightarrow> jsstring" where
  "trimStart s = dropWhile isWhiteSpace s"

definition trimEnd :: "jsstring \<Rightarrow> jsstring" where
  "trimEnd s = rev (dropWhile isWhiteSpace (rev s))"

definition trim :: "jsstring \<Rightarrow> jsstring" where
  "trim s = trimEnd (trimStart s)"

text \<open>\<open>s.includes(p)\<close>: the code units of \<open>p\<close> occur contiguously somewhere in \<open>s\<close>.\<close>

fun startsWith :: "jsstring \<Rightarrow> jsstring \<Rightarrow> bool" where
  "startsWith s [] = True"
| "startsWith [] (p # ps) = False"
| "startsWith (c # cs) (p # ps) = (c = p \<and> startsWith cs ps)"

fun includes_js :: "jsstring \<Rightarrow> jsstring \<Rightarrow> bool" where
  "includes_js [] p = (p = [])"
| "includes_js (c # cs) p = (startsWith (c # cs) p \<or> includes_js cs p)"

text \<open>
  \<open>toLowerCase\<close> and \<open>toUpperCase\<close> apply the Unicode default case conversion. The
  result is the concatenation, position by position, of what each code unit contributes.
  A code unit below U+0080 contributes one code unit that depends on nothing else: the
  letters A..Z and a..z are shifted by 32, every other ASCII code unit is kept. What a
  code unit from U+0080 on contributes is read from the Unicode tables of the engine and
  may depend on its neighbours (the second half of a surrogate pair, a final sigma); the
  tables are a parameter of the model, a function of the code units already seen, the
  code unit itself and the rest of the string.
\<close>

type_synonym case_table = "jsstring \<Rightarrow> code_unit \<Rightarrow> jsstring \<Rightarrow> jsstring"

definition asciiLower :: "code_unit \<Rightarrow> code_unit" where
  "asciiLower c = (if 0x41 \<le> c \<and> c \<le> 0x5A then c + 0x20 else c)"

definition asciiUpper :: "code_unit \<Rightarrow> code_unit" where
  "asciiUpper c = (if 0x61 \<le> c \<and> c \<le> 0x7A then c - 0x20 else c)"

fun caseConvert :: "(code_unit \<Rightarrow> code_unit) \<Rightarrow> case_table \<Rightarrow> jsstring \<Rightarrow> jsstring \<Rightarrow> jsstring" where
  "caseConvert ascii tbl seen [] = []"
| "caseConvert ascii tbl seen (c # rest) =
     (if c < 0x80 then [ascii c] else tbl seen c rest)
       @ caseConvert ascii tbl (seen @ [c]) rest"

subsection \<open>JavaScript values and the engine\<close>

text \<open>
  A number is NaN, an infinity or a finite value \<open>(-1)^sign * mantissa * 2^exponent\<close>; the
  handler only ever asks whether a number is falsy (zero or NaN).
\<close>

datatype jsnumber = NaN | Infinity bool | Finite bool nat int

datatype jsvalue =
    JUndefined
  | JNull
  | JBoolean bool
  | JNumber jsnumber
  | JString jsstring
  | JArray "jsvalue list"
  | JObject "(jsstring \<times> jsvalue) list"

text \<open>An object is the list of its own properties; a key occurs at most once.\<close>

datatype jserror = TypeError jsstring

fun message_of :: "jserror \<Rightarrow> jsstring" where
  "message_of (TypeError m) = m"

text \<open>
  What the engine supplies besides the language semantics: the two case tables and the
  wording of the messages of the TypeErrors it raises (ECMAScript leaves them open).
\<close>

record engine =
  lowerTable :: case_table
  upperTable :: case_table
  cannotDestructure :: "jsvalue \<Rightarrow> jsstring"
  notAFunction :: "jsvalue \<Rightarrow> jsstring"

definition toLowerCase :: "engine \<Rightarrow> jsstring \<Rightarrow> jsstring" where
  "toLowerCase eng s = caseConvert asciiLower (lowerTable eng) [] s"

definition toUpperCase :: "engine \<Rightarrow> jsstring \<Rightarrow> jsstring" where
  "toUpperCase eng s = caseConvert asciiUpper (upperTable eng) [] s"

text \<open>\<open>!v\<close> is \<open>\<not> ToBoolean v\<close>.\<close>

fun ToBoolean :: "jsvalue \<Rightarrow> bool" where
  "ToBoolean JUndefined = False"
| "ToBoolean JNull = False"
| "ToBoolean (JBoolean b) = b"
| "ToBoolean (JNumber NaN) = False"
| "ToBoolean (JNumber (Infinity _)) = True"
| "ToBoolean (JNumber (Finite _ m _)) = (m \<noteq> 0)"
| "ToBoolean (JString s) = (s \<noteq> [])"
| "ToBoolean (JArray _) = True"
| "ToBoolean (JObject _) = True"

fun typeof :: "jsvalue \<Rightarrow> jsstring" where
  "typeof JUndefined = js ''undefined''"
| "typeof JNull = js ''object''"
| "typeof (JBoolean _) = js ''boolean''"
| "typeof (JNumber _) = js ''number''"
| "typeof (JString _) = js ''string''"
| "typeof (JArray _) = js ''object''"
| "typeof (JObject _) = js ''object''"

text \<open>
  \<open>const { message } = req.body\<close>: destructuring \<open>undefined\<close> or \<open>null\<close> throws a
  TypeError. An object yields its own property \<open>message\<close>, or \<open>undefined\<close> when it has
  none (\<open>Object.prototype\<close> has no such property); an array or a primitive has no
  property of that name either.
\<close>

fun getMessage :: "engine \<Rightarrow> jsvalue \<Rightarrow> jserror + jsvalue" where
  "getMessage eng JUndefined = Inl (TypeError (cannotDestructure eng JUndefined))"
| "getMessage eng JNull = Inl (TypeError (cannotDestructure eng JNull))"
| "getMessage eng (JObject props) =
     (case map_of props (js ''message'') of None \<Rightarrow> Inr JUndefined | Some v \<Rightarrow> Inr v)"
| "getMessage eng _ = Inr JUndefined"

text \<open>
  \<open>message.trim()\<close>: a method call on the value. Only a string has the method; on any
  other value the call throws (the handler reaches it only after the \<open>typeof\<close> test).
\<close>

fun callTrim :: "engine \<Rightarrow> jsvalue \<Rightarrow> jserror + jsstring" where
  "callTrim eng (JString s) = Inr (trim s)"
| "callTrim eng v = Inl (TypeError (notAFunction eng v))"

fun callToLowerCase :: "engine \<Rightarrow> jsvalue \<Rightarrow> jserror + jsstring" where
  "callToLowerCase eng (JString s) = Inr (toLowerCase eng s)"
| "callToLowerCase eng v = Inl (TypeError (notAFunction eng v))"

fun callToUpperCase :: "engine \<Rightarrow> jsvalue \<Rightarrow> jserror + jsstring" where
  "callToUpperCase eng (JString s) = Inr (toUpperCase eng s)"
| "callToUpperCase eng v = Inl (TypeError (notAFunction eng v))"

subsection \<open>The clock: \<open>new Date().toISOString()\<close>\<close>

text \<open>
  \<open>new Date()\<close> holds the current time as a time value, the number of milliseconds
  since 1970-01-01T00:00:00Z, an integer. \<open>toISOString\<close> prints it in UTC with the
  day and time arithmetic of ECMAScript (Day, TimeWithinDay, DayFromYear, YearFromTime,
  MonthFromTime, DateFromTime, HourFromTime, MinFromTime, SecFromTime, msFromTime) as
  \<open>YYYY-MM-DDTHH:mm:ss.sssZ\<close>; a year outside 0..9999 is printed with a sign and six
  digits. It throws only on an invalid date, which \<open>new Date()\<close> never is.
\<close>

type_synonym time_value = int

definition msPerDay :: int where "msPerDay = 86400000"
definition msPerHour :: int where "msPerHour = 3600000"
definition msPerMinute :: int where "msPerMinute = 60000"
definition msPerSecond :: int where "msPerSecond = 1000"

definition Day :: "time_value \<Rightarrow> int" where
  "Day t = t div msPerDay"

definition TimeWithinDay :: "time_value \<Rightarrow> int" where
  "TimeWithinDay t = t mod msPerDay"

definition DaysInYear :: "int \<Rightarrow> int" where
  "DaysInYear y =
     (if y mod 4 \<noteq> 0 then 365
      else if y mod 100 \<noteq> 0 then 366
      else if y mod 400 \<noteq> 0 then 365
      else 366)"

definition DayFromYear :: "int \<Rightarrow> int" where
  "DayFromYear y =
     365 * (y - 1970) + (y - 1969) div 4 - (y - 1901) div 100 + (y - 1601) div 400"

text \<open>
  YearFromTime is the largest year \<open>y\<close> with \<open>DayFromYear y \<le> Day t\<close>. It is computed
  from the mean length of a year (146097 days in 400 years), which is off by at most one.
\<close>

definition YearFromTime :: "time_value \<Rightarrow> int" where
  "YearFromTime t =
     (let d = Day t; y = 1970 + (400 * d) div 146097
      in if d < DayFromYear y then y - 1
         else if DayFromYear (y + 1) \<le> d then y + 1
         else y)"

definition DayWithinYear :: "time_value \<Rightarrow> int" where
  "DayWithinYear t = Day t - DayFromYear (YearFromTime t)"

definition InLeapYear :: "time_value \<Rightarrow> int" where
  "InLeapYear t = (if DaysInYear (YearFromTime t) = 366 then 1 else 0)"

definition MonthFromTime :: "time_value \<Rightarrow> int" where
  "MonthFromTime t =
     (let d = DayWithinYear t; l = InLeapYear t
      in if d < 31 then 0
         else if d < 59 + l then 1
         else if d < 90 + l then 2
         else if d < 120 + l then 3
         else if d < 151 + l then 4
         else if d < 181 + l then 5
         else if d < 212 + l then 6
         else if d < 243 + l then 7
         else if d < 273 + l then 8
         else if d < 304 + l then 9
         else if d < 334 + l then 10
         else 11)"

definition DateFromTime :: "time_value \<Rightarrow> int" where
  "DateFromTime t =
     (let d = DayWithinYear t; l = InLeapYear t; m = MonthFromTime t
      in if m = 0 then d + 1
         else if m = 1 then d - 30
         else if m = 2 then d - 58 - l
         else if m = 3 then d - 89 - l
         else if m = 4 then d - 119 - l
         else if m = 5 then d - 150 - l
         else if m = 6 then d - 180 - l
         else if m = 7 then d - 211 - l
         else if m = 8 then d - 242 - l
         else if m = 9 then d - 272 - l
         else if m = 10 then d - 303 - l
         else d - 333 - l)"

definition HourFromTime :: "time_value \<Rightarrow> int" where
  "HourFromTime t = (t div msPerHour) mod 24"

definition MinFromTime :: "time_value \<Rightarrow> int" where
  "MinFromTime t = (t div msPerMinute) mod 60"

definition SecFromTime :: "time_value \<Rightarrow> int" where
  "SecFromTime t = (t div msPerSecond) mod 60"

definition msFromTime :: "time_value \<Rightarrow> int" where
  "msFromTime t = t mod msPerSecond"

text \<open>Decimal digits, most significant first, and \<open>padStart\<close> with the digit zero.\<close>

definition digitChar :: "nat \<Rightarrow> code_unit" where
  "digitChar n = of_nat (48 + n)"

fun decimal :: "nat \<Rightarrow> jsstring" where
  "decimal n = (if n < 10 then [digitChar n] else decimal (n div 10) @ [digitChar (n mod 10)])"

declare decimal.simps [simp del]

definition padZero :: "nat \<Rightarrow> nat \<Rightarrow> jsstring" where
  "padZero width n = (let s = decimal n in replicate (width - length s) 0x30 @ s)"

definition yearString :: "int \<Rightarrow> jsstring" where
  "yearString y =
     (if 0 \<le> y \<and> y \<le> 9999 then padZero 4 (nat y)
      else (if y < 0 then js ''-'' else js ''+'') @ padZero 6 (nat \<bar>y\<bar>))"

definition toISOString :: "time_value \<Rightarrow> jsstring" where
  "toISOString t =
     yearString (YearFromTime t) @ js ''-'' @ padZero 2 (nat (MonthFromTime t + 1)) @ js ''-''
       @ padZero 2 (nat (DateFromTime t)) @ js ''T'' @ padZero 2 (nat (HourFromTime t)) @ js '':''
       @ padZero 2 (nat (MinFromTime t)) @ js '':'' @ padZero 2 (nat (SecFromTime t)) @ js ''.''
       @ padZero 3 (nat (msFromTime t)) @ js ''Z''"

text \<open>
  Reading a timestamp back. ECMAScript's date-time string format, in the complete UTC
  form that \<open>toISOString\<close> prints: a year of four digits, or of six digits after a sign
  (\<open>-000000\<close> is not a year), then \<open>-MM-DDTHH:mm:ss.sssZ\<close> with the month in 01..12,
  the day in 01..31, the hour below 24 and minute and second below 60. The time value is
  put together with MakeDay, MakeTime and MakeDate and must lie in the range of time
  values, at most 8.64e15 milliseconds from the epoch.
\<close>

definition expect :: "code_unit \<Rightarrow> jsstring \<Rightarrow> jsstring option" where
  "expect c s = (case s of [] \<Rightarrow> None | x # rest \<Rightarrow> if x = c then Some rest else None)"

fun digitsValue :: "nat \<Rightarrow> jsstring \<Rightarrow> nat option" where
  "digitsValue acc [] = Some acc"
| "digitsValue acc (c # cs) =
     (if 0x30 \<le> c \<and> c \<le> 0x39 then digitsValue (10 * acc + unat (c - 0x30)) cs else None)"

definition digitsN :: "nat \<Rightarrow> jsstring \<Rightarrow> (nat \<times> jsstring) option" where
  "digitsN k s =
     (if length s < k then None
      else map_option (\<lambda>v. (v, drop k s)) (digitsValue 0 (take k s)))"

definition parseYear :: "jsstring \<Rightarrow> (int \<times> jsstring) option" where
  "parseYear s =
     (case s of
        [] \<Rightarrow> None
      | c # rest \<Rightarrow>
          if c = 0x2B then map_option (\<lambda>(v, r). (int v, r)) (digitsN 6 rest)
          else if c = 0x2D then
            (case digitsN 6 rest of
               None \<Rightarrow> None
             | Some (v, r) \<Rightarrow> if v = 0 then None else Some (- int v, r))
          else map_option (\<lambda>(v, r). (int v, r)) (digitsN 4 s))"

definition DayFromMonth :: "int \<Rightarrow> int \<Rightarrow> int" where
  "DayFromMonth m l =
     (if m = 0 then 0
      else if m = 1 then 31
      else if m = 2 then 59 + l
      else if m = 3 then 90 + l
      else if m = 4 then 120 + l
      else if m = 5 then 151 + l
      else if m = 6 then 181 + l
      else if m = 7 then 212 + l
      else if m = 8 then 243 + l
      else if m = 9 then 273 + l
      else if m = 10 then 304 + l
      else 334 + l)"

definition MakeDay :: "int \<Rightarrow> int \<Rightarrow> int \<Rightarrow> int" where
  "MakeDay y m d = DayFromYear y + DayFromMonth m (if DaysInYear y = 366 then 1 else 0) + d - 1"

definition MakeTime :: "int \<Rightarrow> int \<Rightarrow> int \<Rightarrow> int \<Rightarrow> int" where
  "MakeTime h m s ms = h * msPerHour + m * msPerMinute + s * msPerSecond + ms"

definition MakeDate :: "int \<Rightarrow> int \<Rightarrow> time_value" where
  "MakeDate day time = day * msPerDay + time"

definition maxTimeValue :: int where
  "maxTimeValue = 8640000000000000"

definition parseISO :: "jsstring \<Rightarrow> time_value option" where
  "parseISO s0 = do {
     (y, s1) \<leftarrow> parseYear s0;
     s2 \<leftarrow> expect 0x2D s1;
     (mo, s3) \<leftarrow> digitsN 2 s2;
     s4 \<leftarrow> expect 0x2D s3;
     (d, s5) \<leftarrow> digitsN 2 s4;
     s6 \<leftarrow> expect 0x54 s5;
     (h, s7) \<leftarrow> digitsN 2 s6;
     s8 \<leftarrow> expect 0x3A s7;
     (mi, s9) \<leftarrow> digitsN 2 s8;
     s10 \<leftarrow> expect 0x3A s9;
     (sec, s11) \<leftarrow> digitsN 2 s10;
     s12 \<leftarrow> expect 0x2E s11;
     (ms, s13) \<leftarrow> digitsN 3 s12;
     s14 \<leftarrow> expect 0x5A s13;
     if s14 = [] \<and> 1 \<le> mo \<and> mo \<le> 12 \<and> 1 \<le> d \<and> d \<le> 31 \<and> h < 24 \<and> mi < 60 \<and> sec < 60
     then (let t = MakeDate (MakeDay y (int mo - 1) (int d))
                            (MakeTime (int h) (int mi) (int sec) (int ms))
           in if \<bar>t\<bar> \<le> maxTimeValue then Some t else None)
     else None
   }"

subsection \<open>The handler\<close>

text \<open>What \<open>res.status(code).json(obj)\<close> sends: the status and the properties of \<open>obj\<close>, in order.\<close>

record response =
  status :: nat
  body :: "(jsstring \<times> jsvalue) list"

definition greeting :: jsstring where
  "greeting = js ''Greetings, human! How can I assist you?''"

definition botSaysPrefix :: jsstring where
  "botSaysPrefix = js ''BOT SAYS: ''"

definition validationMessage :: jsstring where
  "validationMessage = js ''Message is required and must be a non-empty string.''"

definition internalMessage :: jsstring where
  "internalMessage = js ''An unexpected error occurred while processing your request.''"

definition processedBy :: jsstring where
  "processedBy = js ''Processed by EchoBot 9000 @ ''"

definition errorProcessedBy :: jsstring where
  "errorProcessedBy = js ''Error processed by EchoBot 9000 @ ''"

text \<open>
  The condition of the \<open>if\<close> at line 57,
  \<open>!message || typeof message !== 'string' || message.trim() === ''\<close>,
  evaluated left to right with the short circuit of \<open>||\<close>.
\<close>

definition validationFails :: "engine \<Rightarrow> jsvalue \<Rightarrow> jserror + bool" where
  "validationFails eng message =
     (if \<not> ToBoolean message then Inr True
      else if typeof message \<noteq> js ''string'' then Inr True
      else (case callTrim eng message of
              Inl e \<Rightarrow> Inl e
            | Inr trimmed \<Rightarrow> Inr (trimmed = [])))"

text \<open>The three places where a response is sent (lines 60, 89 and 102).\<close>

definition badRequest :: "time_value \<Rightarrow> response" where
  "badRequest now =
     \<lparr>status = 400,
      body = [(js ''error'', JString validationMessage),
              (js ''backendSignature'', JString (errorProcessedBy @ toISOString now))]\<rparr>"

definition success :: "jsstring \<Rightarrow> time_value \<Rightarrow> response" where
  "success botResponse now =
     \<lparr>status = 200,
      body = [(js ''response'', JString botResponse),
              (js ''backendSignature'', JString (processedBy @ toISOString now))]\<rparr>"

definition catchBlock :: "time_value \<Rightarrow> jserror \<Rightarrow> jserror + response" where
  "catchBlock now error =
     Inr \<lparr>status = 500,
          body = [(js ''error'', JString internalMessage),
                  (js ''details'', JString (message_of error)),
                  (js ''backendSignature'', JString (errorProcessedBy @ toISOString now))]\<rparr>"

text \<open>The body of the \<open>try\<close> (lines 53 to 92); \<open>Inl\<close> is a fault thrown inside it.\<close>

definition tryBlock :: "engine \<Rightarrow> time_value \<Rightarrow> jsvalue \<Rightarrow> jserror + response" where
  "tryBlock eng now reqBody =
     (case getMessage eng reqBody of
        Inl e \<Rightarrow> Inl e
      | Inr message \<Rightarrow>
          (case validationFails eng message of
             Inl e \<Rightarrow> Inl e
           | Inr True \<Rightarrow> Inr (badRequest now)
           | Inr False \<Rightarrow>
               (case callToLowerCase eng message of
                  Inl e \<Rightarrow> Inl e
                | Inr lowerCaseMessage \<Rightarrow>
                    if includes_js lowerCaseMessage (js ''hello'')
                       \<or> includes_js lowerCaseMessage (js ''hi'')
                    then Inr (success greeting now)
                    else (case callToUpperCase eng message of
                            Inl e \<Rightarrow> Inl e
                          | Inr upper \<Rightarrow> Inr (success (botSaysPrefix @ upper) now)))))"

text \<open>
  The handler: the \<open>try\<close> with its \<open>catch\<close>. \<open>Inl\<close> would be a fault that leaves the
  handler; \<open>now\<close> is the clock reading on the path taken.
\<close>

definition chatHandler :: "engine \<Rightarrow> time_value \<Rightarrow> jsvalue \<Rightarrow> jserror + response" where
  "chatHandler eng now reqBody =
     (case tryBlock eng now reqBody of
        Inl error \<Rightarrow> catchBlock now error
      | Inr res \<Rightarrow> Inr res)"

text \<open>Reading a field of the JSON body of a response.\<close>

definition field :: "response \<Rightarrow> string \<Rightarrow> jsvalue option" where
  "field res name = map_of (body res) (js name)"

text \<open>
  A request body of the documented shape \<open>{"message": m}\<close>, and an engine for running
  examples: on ASCII strings its tables are never consulted.
\<close>

definition chatRequest :: "jsvalue \<Rightarrow> jsvalue" where
  "chatRequest m = JObject [(js ''message'', m)]"

definition asciiEngine :: engine where
  "asciiEngine =
     \<lparr>lowerTable = (\<lambda>seen c rest. [c]),
      upperTable = (\<lambda>seen c rest. [c]),
      cannotDestructure = (\<lambda>v. js ''Cannot destructure property 'message' of 'req.body' as it is undefined.''),
      notAFunction = (\<lambda>v. js ''message.trim is not a function'')\<rparr>"

subsection \<open>Facts about the string operations\<close>

lemma startsWith_iff: "startsWith s p \<longleftrightarrow> (\<exists>post. s = p @ post)"
  by (induction s p rule: startsWith.induct) auto

lemma includes_js_iff: "includes_js s p \<longleftrightarrow> (\<exists>pre post. s = pre @ p @ post)"
proof (induction s)
  case Nil
  then show ?case by simp
next
  case (Cons c cs)
  show ?case
  proof
    assume "includes_js (c # cs) p"
    then consider "startsWith (c # cs) p" | "includes_js cs p" by auto
    then show "\<exists>pre post. c # cs = pre @ p @ post"
    proof cases
      case 1
      then obtain post where "c # cs = p @ post" by (auto simp: startsWith_iff)
      then have "c # cs = [] @ p @ post" by simp
      then show ?thesis by blast
    next
      case 2
      then obtain pre post where "cs = pre @ p @ post" using Cons.IH by blast
      then have "c # cs = (c # pre) @ p @ post" by simp
      then show ?thesis by blast
    qed
  next
    assume "\<exists>pre post. c # cs = pre @ p @ post"
    then obtain pre post where eq: "c # cs = pre @ p @ post" by blast
    show "includes_js (c # cs) p"
    proof (cases pre)
      case Nil
      with eq have "startsWith (c # cs) p" by (auto simp: startsWith_iff)
      then show ?thesis by simp
    next
      case (Cons a pre')
      with eq have "cs = pre' @ p @ post" by simp
      then have "includes_js cs p" using Cons.IH by blast
      then show ?thesis by simp
    qed
  qed
qed

lemma trim_Nil: "trim [] = []"
  by (simp add: trim_def trimStart_def trimEnd_def)

lemma trimEnd_decomp: "s = trimEnd s @ rev (takeWhile isWhiteSpace (rev s))"
proof -
  have "rev (takeWhile isWhiteSpace (rev s) @ dropWhile isWhiteSpace (rev s)) = s"
    by (simp only: takeWhile_dropWhile_id rev_rev_ident)
  then show ?thesis by (simp only: trimEnd_def rev_append)
qed

lemma trim_decomp: "\<exists>pre post. s = pre @ trim s @ post"
proof -
  have "s = takeWhile isWhiteSpace s @ trimStart s" by (simp add: trimStart_def)
  moreover have "trimStart s = trim s @ rev (takeWhile isWhiteSpace (rev (trimStart s)))"
    unfolding trim_def by (rule trimEnd_decomp)
  ultimately show ?thesis by metis
qed

lemma includes_js_trim: "includes_js (trim s) p \<Longrightarrow> includes_js s p"
proof -
  assume "includes_js (trim s) p"
  then obtain a b where t: "trim s = a @ p @ b" by (auto simp: includes_js_iff)
  obtain pre post where "s = pre @ trim s @ post" using trim_decomp by blast
  with t have "s = (pre @ a) @ p @ (b @ post)" by simp
  then show ?thesis unfolding includes_js_iff by blast
qed

lemma caseConvert_append:
  "\<exists>X. caseConvert ascii tbl seen (xs @ ys) = X @ caseConvert ascii tbl (seen @ xs) ys"
proof (induction xs arbitrary: seen)
  case Nil
  then show ?case by simp
next
  case (Cons x xs)
  obtain X where "caseConvert ascii tbl (seen @ [x]) (xs @ ys)
      = X @ caseConvert ascii tbl ((seen @ [x]) @ xs) ys"
    using Cons.IH by blast
  then show ?case by simp
qed

lemma caseConvert_ascii_prefix:
  "\<forall>c \<in> set w. c < 0x80 \<Longrightarrow>
   caseConvert ascii tbl seen (w @ ys) = map ascii w @ caseConvert ascii tbl (seen @ w) ys"
  by (induction w arbitrary: seen) simp_all

lemma caseConvert_ascii_suffix:
  "\<forall>c \<in> set w. c < 0x80 \<Longrightarrow> \<exists>X. caseConvert ascii tbl seen (xs @ w) = X @ map ascii w"
proof -
  assume w: "\<forall>c \<in> set w. c < 0x80"
  obtain X where "caseConvert ascii tbl seen (xs @ w) = X @ caseConvert ascii tbl (seen @ xs) w"
    using caseConvert_append by blast
  moreover have "caseConvert ascii tbl (seen @ xs) (w @ []) = map ascii w @ []"
    using caseConvert_ascii_prefix [OF w, of ascii tbl "seen @ xs" "[]"] by simp
  ultimately show ?thesis by simp
qed

lemma includes_js_caseConvert:
  assumes "includes_js s w" and w: "\<forall>c \<in> set w. c < 0x80"
  shows "includes_js (caseConvert ascii tbl seen s) (map ascii w)"
proof -
  obtain pre post where s: "s = pre @ w @ post" using assms(1) by (auto simp: includes_js_iff)
  obtain X where "caseConvert ascii tbl seen (pre @ w @ post)
      = X @ caseConvert ascii tbl (seen @ pre) (w @ post)"
    using caseConvert_append by blast
  then have "caseConvert ascii tbl seen s
      = X @ map ascii w @ caseConvert ascii tbl ((seen @ pre) @ w) post"
    using caseConvert_ascii_prefix [OF w] s by simp
  then show ?thesis unfolding includes_js_iff by blast
qed

subsection \<open>Facts about the steps of the handler\<close>

lemma typeof_string_iff: "typeof v = js ''string'' \<longleftrightarrow> (\<exists>s. v = JString s)"
  by (cases v) (simp_all add: js_def)

lemma validationFails_string: "validationFails eng (JString s) = Inr (trim s = [])"
  by (simp add: validationFails_def trim_Nil)

lemma validationFails_other: "\<forall>s. v \<noteq> JString s \<Longrightarrow> validationFails eng v = Inr True"
  using typeof_string_iff [of v] by (simp add: validationFails_def)

lemma validationFails_total: "\<exists>b. validationFails eng v = Inr b"
  by (cases "\<exists>s. v = JString s") (auto simp: validationFails_string validationFails_other)

lemma getMessage_object:
  "getMessage eng (JObject props)
     = Inr (case map_of props (js ''message'') of None \<Rightarrow> JUndefined | Some v \<Rightarrow> v)"
  by (simp split: option.split)

lemma tryBlock_invalid:
  assumes "getMessage eng reqBody = Inr v" and "\<forall>s. v = JString s \<longrightarrow> trim s = []"
  shows "tryBlock eng now reqBody = Inr (badRequest now)"
proof (cases "\<exists>s. v = JString s")
  case True
  then obtain s where "v = JString s" by blast
  with assms show ?thesis by (simp add: tryBlock_def validationFails_string)
next
  case False
  then have "validationFails eng v = Inr True" by (simp add: validationFails_other)
  with assms(1) show ?thesis by (simp add: tryBlock_def)
qed

lemma tryBlock_valid:
  assumes "getMessage eng reqBody = Inr (JString m)" and "trim m \<noteq> []"
  shows "tryBlock eng now reqBody =
           Inr (success (if includes_js (toLowerCase eng m) (js ''hello'')
                            \<or> includes_js (toLowerCase eng m) (js ''hi'')
                         then greeting else botSaysPrefix @ toUpperCase eng m) now)"
  using assms by (simp add: tryBlock_def validationFails_string)

lemma chatHandler_Inr: "tryBlock eng now reqBody = Inr res \<Longrightarrow> chatHandler eng now reqBody = Inr res"
  by (simp add: chatHandler_def)

text \<open>Every run of the handler takes one of three paths.\<close>

lemma chatHandler_cases:
  obtains (fault) e where "getMessage eng reqBody = Inl e"
      and "\<And>now. tryBlock eng now reqBody = Inl e"
      and "\<And>now. chatHandler eng now reqBody = catchBlock now e"
  | (invalid) v where "getMessage eng reqBody = Inr v"
      and "\<forall>s. v = JString s \<longrightarrow> trim s = []"
      and "\<And>now. tryBlock eng now reqBody = Inr (badRequest now)"
      and "\<And>now. chatHandler eng now reqBody = Inr (badRequest now)"
  | (valid) m where "getMessage eng reqBody = Inr (JString m)"
      and "trim m \<noteq> []"
      and "\<And>now. tryBlock eng now reqBody =
             Inr (success (if includes_js (toLowerCase eng m) (js ''hello'')
                              \<or> includes_js (toLowerCase eng m) (js ''hi'')
                           then greeting else botSaysPrefix @ toUpperCase eng m) now)"
      and "\<And>now. chatHandler eng now reqBody =
             Inr (success (if includes_js (toLowerCase eng m) (js ''hello'')
                              \<or> includes_js (toLowerCase eng m) (js ''hi'')
                           then greeting else botSaysPrefix @ toUpperCase eng m) now)"
proof (cases "getMessage eng reqBody")
  case (Inl e)
  then have "tryBlock eng now reqBody = Inl e" for now by (simp add: tryBlock_def)
  then show ?thesis using Inl fault by (simp add: chatHandler_def)
next
  case (Inr v)
  show ?thesis
  proof (cases "\<forall>s. v = JString s \<longrightarrow> trim s = []")
    case True
    then have "tryBlock eng now reqBody = Inr (badRequest now)" for now
      using Inr tryBlock_invalid by blast
    then show ?thesis using Inr True invalid chatHandler_Inr by blast
  next
    case False
    then obtain m where m: "v = JString m" "trim m \<noteq> []" by blast
    then have "tryBlock eng now reqBody =
             Inr (success (if includes_js (toLowerCase eng m) (js ''hello'')
                              \<or> includes_js (toLowerCase eng m) (js ''hi'')
                           then greeting else botSaysPrefix @ toUpperCase eng m) now)" for now
      using Inr tryBlock_valid by blast
    then show ?thesis using Inr m valid chatHandler_Inr by blast
  qed
qed

lemma asciiLower_ascii: "asciiLower c < 0x80 \<Longrightarrow> c < 0x80"
proof (cases "0x41 \<le> c \<and> c \<le> 0x5A")
  case True
  then have "c \<le> 0x5A" by simp
  moreover have "(0x5A :: code_unit) < 0x80" by simp
  ultimately show ?thesis by (rule order.strict_trans1)
next
  case False
  then have "asciiLower c = c" unfolding asciiLower_def by (rule if_not_P)
  moreover assume "asciiLower c < 0x80"
  ultimately show ?thesis by simp
qed

lemma asciiLower_spelling_ascii:
  assumes "map asciiLower w = js ''hello'' \<or> map asciiLower w = js ''hi''"
  shows "\<forall>c \<in> set w. c < 0x80"
proof
  fix c assume "c \<in> set w"
  then have "asciiLower c \<in> set (map asciiLower w)" by simp
  with assms have "asciiLower c < 0x80" by (auto simp: js_def)
  then show "c < 0x80" by (rule asciiLower_ascii)
qed

lemma greeting_hit:
  assumes "includes_js (trim m) w"
      and "map asciiLower w = js ''hello'' \<or> map asciiLower w = js ''hi''"
  shows "includes_js (toLowerCase eng m) (js ''hello'') \<or> includes_js (toLowerCase eng m) (js ''hi'')"
proof -
  have "includes_js m w" using assms(1) by (rule includes_js_trim)
  then have "includes_js (toLowerCase eng m) (map asciiLower w)"
    unfolding toLowerCase_def using asciiLower_spelling_ascii [OF assms(2)]
    by (rule includes_js_caseConvert)
  with assms(2) show ?thesis by auto
qed

subsection \<open>Validation\<close>

text \<open>
  Claim C1. A request object whose \<open>message\<close> is absent, is not a string, or is a string
  that is empty once trimmed is answered with status 400; the body has the field
  \<open>error\<close> with the text "Message is required and must be a non-empty string." and
  a \<open>backendSignature\<close> that starts with "Error processed by", and it has no
  \<open>response\<close> field.
\<close>

theorem validation_failure_is_400:
  assumes "map_of props (js ''message'') = None
           \<or> (\<exists>v. map_of props (js ''message'') = Some v \<and> (\<forall>s. v \<noteq> JString s))
           \<or> (\<exists>s. map_of props (js ''message'') = Some (JString s) \<and> trim s = [])"
  shows "\<exists>res. chatHandler eng now (JObject props) = Inr res
           \<and> status res = 400
           \<and> body res =
               [(js ''error'', JString (js ''Message is required and must be a non-empty string.'')),
                (js ''backendSignature'',
                   JString (js ''Error processed by EchoBot 9000 @ '' @ toISOString now))]
           \<and> field res ''response'' = None"
proof -
  obtain v where v: "getMessage eng (JObject props) = Inr v" "\<forall>s. v = JString s \<longrightarrow> trim s = []"
    using assms by (auto simp: getMessage_object)
  then have "tryBlock eng now (JObject props) = Inr (badRequest now)"
    by (rule tryBlock_invalid)
  then have "chatHandler eng now (JObject props) = Inr (badRequest now)"
    by (rule chatHandler_Inr)
  moreover have "field (badRequest now) ''response'' = None"
    by (simp add: field_def badRequest_def js_def)
  ultimately show ?thesis
    by (simp add: badRequest_def validationMessage_def errorProcessedBy_def)
qed

theorem validation_failure_is_400_witness:
  "(\<exists>res. chatHandler asciiEngine 0 (JObject []) = Inr res \<and> status res = 400)
   \<and> (\<exists>res. chatHandler asciiEngine 0 (chatRequest (JNumber (Finite False 42 0))) = Inr res
          \<and> status res = 400)
   \<and> (\<exists>res. chatHandler asciiEngine 0 (chatRequest (JString (js ''   ''))) = Inr res
          \<and> status res = 400
          \<and> field res ''error''
               = Some (JString (js ''Message is required and must be a non-empty string.'')))"
proof -
  have a: "map_of [] (js ''message'') = None
           \<or> (\<exists>v. map_of [] (js ''message'') = Some v \<and> (\<forall>s. v \<noteq> JString s))
           \<or> (\<exists>s. map_of [] (js ''message'') = Some (JString s) \<and> trim s = [])"
    by simp
  have b: "map_of [(js ''message'', JNumber (Finite False 42 0))] (js ''message'') = None
           \<or> (\<exists>v. map_of [(js ''message'', JNumber (Finite False 42 0))] (js ''message'') = Some v
                  \<and> (\<forall>s. v \<noteq> JString s))
           \<or> (\<exists>s. map_of [(js ''message'', JNumber (Finite False 42 0))] (js ''message'')
                    = Some (JString s) \<and> trim s = [])"
    by simp
  have "trim (js ''   '') = []"
    by (simp add: js_def trim_def trimStart_def trimEnd_def isWhiteSpace_def)
  then have c: "map_of [(js ''message'', JString (js ''   ''))] (js ''message'') = None
           \<or> (\<exists>v. map_of [(js ''message'', JString (js ''   ''))] (js ''message'') = Some v
                  \<and> (\<forall>s. v \<noteq> JString s))
           \<or> (\<exists>s. map_of [(js ''message'', JString (js ''   ''))] (js ''message'')
                    = Some (JString s) \<and> trim s = [])"
    by simp
  show ?thesis
    using validation_failure_is_400 [OF a, of asciiEngine 0]
      validation_failure_is_400 [OF b, of asciiEngine 0]
      validation_failure_is_400 [OF c, of asciiEngine 0]
    by (auto simp: chatRequest_def field_def js_def)
qed

subsection \<open>The two reply rules\<close>

lemma getMessage_field:
  "map_of props (js ''message'') = Some v \<Longrightarrow> getMessage eng (JObject props) = Inr v"
  by simp

lemma chatHandler_valid:
  assumes "map_of props (js ''message'') = Some (JString m)" and "trim m \<noteq> []"
  shows "chatHandler eng now (JObject props) =
           Inr (success (if includes_js (toLowerCase eng m) (js ''hello'')
                            \<or> includes_js (toLowerCase eng m) (js ''hi'')
                         then greeting else botSaysPrefix @ toUpperCase eng m) now)"
proof -
  have "getMessage eng (JObject props) = Inr (JString m)"
    using assms(1) by (rule getMessage_field)
  then have "tryBlock eng now (JObject props) =
           Inr (success (if includes_js (toLowerCase eng m) (js ''hello'')
                            \<or> includes_js (toLowerCase eng m) (js ''hi'')
                         then greeting else botSaysPrefix @ toUpperCase eng m) now)"
    using assms(2) by (rule tryBlock_valid)
  then show ?thesis by (rule chatHandler_Inr)
qed

text \<open>
  Claim C2. A request whose \<open>message\<close> is a string, non-empty once trimmed, and whose
  lower-cased form contains "hello" or "hi" is answered with status 200 and the
  \<open>response\<close> "Greetings, human! How can I assist you?". The match does not depend on
  letter case or on surrounding white space: it is enough that the trimmed message
  contains "hello" or "hi" in any mix of upper and lower case.
\<close>

theorem greeting_rule:
  assumes "map_of props (js ''message'') = Some (JString m)" and "trim m \<noteq> []"
      and "includes_js (toLowerCase eng m) (js ''hello'')
           \<or> includes_js (toLowerCase eng m) (js ''hi'')
           \<or> (\<exists>w. includes_js (trim m) w
                  \<and> (map asciiLower w = js ''hello'' \<or> map asciiLower w = js ''hi''))"
  shows "chatHandler eng now (JObject props) =
           Inr \<lparr>status = 200,
                body = [(js ''response'', JString (js ''Greetings, human! How can I assist you?'')),
                        (js ''backendSignature'',
                           JString (js ''Processed by EchoBot 9000 @ '' @ toISOString now))]\<rparr>"
proof -
  have "includes_js (toLowerCase eng m) (js ''hello'') \<or> includes_js (toLowerCase eng m) (js ''hi'')"
    using assms(3) greeting_hit by blast
  then show ?thesis
    using chatHandler_valid [OF assms(1,2), of eng now]
    by (simp add: success_def greeting_def processedBy_def)
qed

theorem greeting_rule_witness:
  "chatHandler asciiEngine 1750649014123 (chatRequest (JString (js ''Hello there''))) =
     Inr \<lparr>status = 200,
          body = [(js ''response'', JString (js ''Greetings, human! How can I assist you?'')),
                  (js ''backendSignature'',
                     JString (js ''Processed by EchoBot 9000 @ 2025-06-23T03:23:34.123Z''))]\<rparr>
   \<and> (\<exists>sig. chatHandler asciiEngine 0 (chatRequest (JString (js '' HI! ''))) =
     Inr \<lparr>status = 200,
          body = [(js ''response'', JString (js ''Greetings, human! How can I assist you?'')),
                  (js ''backendSignature'', JString sig)]\<rparr>)"
proof -
  have a1: "map_of [(js ''message'', JString (js ''Hello there''))] (js ''message'')
              = Some (JString (js ''Hello there''))"
    by simp
  have a2: "trim (js ''Hello there'') \<noteq> []"
    by (simp add: js_def trim_def trimStart_def trimEnd_def isWhiteSpace_def)
  have "includes_js (toLowerCase asciiEngine (js ''Hello there'')) (js ''hello'')"
    by (simp add: js_def toLowerCase_def asciiLower_def)
  then have a3: "includes_js (toLowerCase asciiEngine (js ''Hello there'')) (js ''hello'')
           \<or> includes_js (toLowerCase asciiEngine (js ''Hello there'')) (js ''hi'')
           \<or> (\<exists>w. includes_js (trim (js ''Hello there'')) w
                  \<and> (map asciiLower w = js ''hello'' \<or> map asciiLower w = js ''hi''))"
    by simp
  have iso: "toISOString 1750649014123 = js ''2025-06-23T03:23:34.123Z''"
    by code_simp
  have b1: "map_of [(js ''message'', JString (js '' HI! ''))] (js ''message'')
              = Some (JString (js '' HI! ''))"
    by simp
  have t: "trim (js '' HI! '') = js ''HI!''"
    by (simp add: js_def trim_def trimStart_def trimEnd_def isWhiteSpace_def)
  then have b2: "trim (js '' HI! '') \<noteq> []"
    by (simp add: js_def)
  have "includes_js (trim (js '' HI! '')) (js ''HI'')
          \<and> (map asciiLower (js ''HI'') = js ''hello'' \<or> map asciiLower (js ''HI'') = js ''hi'')"
    by (simp add: t) (simp add: js_def asciiLower_def)
  then have b3: "includes_js (toLowerCase asciiEngine (js '' HI! '')) (js ''hello'')
           \<or> includes_js (toLowerCase asciiEngine (js '' HI! '')) (js ''hi'')
           \<or> (\<exists>w. includes_js (trim (js '' HI! '')) w
                  \<and> (map asciiLower w = js ''hello'' \<or> map asciiLower w = js ''hi''))"
    by blast
  have "js ''Processed by EchoBot 9000 @ '' @ js ''2025-06-23T03:23:34.123Z''
          = js ''Processed by EchoBot 9000 @ 2025-06-23T03:23:34.123Z''"
    by (simp add: js_def)
  then show ?thesis
    using greeting_rule [OF a1 a2 a3, of 1750649014123] greeting_rule [OF b1 b2 b3, of 0]
    by (simp add: chatRequest_def iso)
qed

text \<open>
  Claim C3. A request whose \<open>message\<close> is a string, non-empty once trimmed, and whose
  lower-cased form contains neither "hello" nor "hi" is answered with status 200 and the
  \<open>response\<close> "BOT SAYS: " followed by the message as it was sent, in upper case.
\<close>

theorem echo_rule:
  assumes "map_of props (js ''message'') = Some (JString m)" and "trim m \<noteq> []"
      and "\<not> includes_js (toLowerCase eng m) (js ''hello'')"
      and "\<not> includes_js (toLowerCase eng m) (js ''hi'')"
  shows "chatHandler eng now (JObject props) =
           Inr \<lparr>status = 200,
                body = [(js ''response'', JString (js ''BOT SAYS: '' @ toUpperCase eng m)),
                        (js ''backendSignature'',
                           JString (js ''Processed by EchoBot 9000 @ '' @ toISOString now))]\<rparr>"
  using chatHandler_valid [OF assms(1,2), of eng now] assms(3,4)
  by (simp add: success_def botSaysPrefix_def processedBy_def)

theorem echo_rule_witness:
  "chatHandler asciiEngine 0 (chatRequest (JString (js ''test''))) =
     Inr \<lparr>status = 200,
          body = [(js ''response'', JString (js ''BOT SAYS: TEST'')),
                  (js ''backendSignature'',
                     JString (js ''Processed by EchoBot 9000 @ 1970-01-01T00:00:00.000Z''))]\<rparr>"
proof -
  have a1: "map_of [(js ''message'', JString (js ''test''))] (js ''message'')
              = Some (JString (js ''test''))"
    by simp
  have a2: "trim (js ''test'') \<noteq> []"
    by (simp add: js_def trim_def trimStart_def trimEnd_def isWhiteSpace_def)
  have a3: "\<not> includes_js (toLowerCase asciiEngine (js ''test'')) (js ''hello'')"
    by (simp add: js_def toLowerCase_def asciiLower_def)
  have a4: "\<not> includes_js (toLowerCase asciiEngine (js ''test'')) (js ''hi'')"
    by (simp add: js_def toLowerCase_def asciiLower_def)
  have up: "js ''BOT SAYS: '' @ toUpperCase asciiEngine (js ''test'') = js ''BOT SAYS: TEST''"
    by (simp add: js_def toUpperCase_def asciiUpper_def)
  have iso: "js ''Processed by EchoBot 9000 @ '' @ toISOString 0
               = js ''Processed by EchoBot 9000 @ 1970-01-01T00:00:00.000Z''"
    by code_simp
  show ?thesis
    using echo_rule [OF a1 a2 a3 a4, of 0]
    by (simp only: chatRequest_def up iso)
qed

text \<open>
  Claim C4. The greeting rule is tried first and looks for a substring, not a word: a
  valid message that contains "hi" anywhere, for instance inside "this", gets the
  greeting and never a reply that starts with "BOT SAYS: ".
\<close>

theorem greeting_matches_inside_words:
  assumes "map_of props (js ''message'') = Some (JString m)" and "trim m \<noteq> []"
      and "m = before_hi @ js ''hi'' @ after_hi"
  shows "\<exists>res. chatHandler eng now (JObject props) = Inr res
           \<and> status res = 200
           \<and> field res ''response'' = Some (JString (js ''Greetings, human! How can I assist you?''))
           \<and> (\<forall>echo. field res ''response'' \<noteq> Some (JString (js ''BOT SAYS: '' @ echo)))"
proof -
  have "includes_js m (js ''hi'')"
    unfolding includes_js_iff using assms(3) by blast
  moreover have "\<forall>c \<in> set (js ''hi''). c < 0x80"
    by (simp add: js_def)
  ultimately have "includes_js (toLowerCase eng m) (map asciiLower (js ''hi''))"
    unfolding toLowerCase_def by (rule includes_js_caseConvert)
  moreover have "map asciiLower (js ''hi'') = js ''hi''"
    by (simp add: js_def asciiLower_def)
  ultimately have "includes_js (toLowerCase eng m) (js ''hi'')"
    by simp
  then have "chatHandler eng now (JObject props) = Inr (success greeting now)"
    using chatHandler_valid [OF assms(1,2), of eng now] by simp
  moreover have "field (success greeting now) ''response''
                   = Some (JString (js ''Greetings, human! How can I assist you?''))"
    by (simp add: field_def success_def greeting_def)
  moreover have "js ''Greetings, human! How can I assist you?'' \<noteq> js ''BOT SAYS: '' @ echo" for echo
    by (simp add: js_def)
  ultimately show ?thesis
    by (simp add: success_def)
qed

theorem greeting_matches_inside_words_witness:
  "\<exists>res. chatHandler asciiEngine 0 (chatRequest (JString (js ''this''))) = Inr res
         \<and> status res = 200
         \<and> field res ''response'' = Some (JString (js ''Greetings, human! How can I assist you?''))
         \<and> (\<forall>echo. field res ''response'' \<noteq> Some (JString (js ''BOT SAYS: '' @ echo)))"
proof -
  have a1: "map_of [(js ''message'', JString (js ''this''))] (js ''message'')
              = Some (JString (js ''this''))"
    by simp
  have a2: "trim (js ''this'') \<noteq> []"
    by (simp add: js_def trim_def trimStart_def trimEnd_def isWhiteSpace_def)
  have a3: "js ''this'' = js ''t'' @ js ''hi'' @ js ''s''"
    by (simp add: js_def)
  show ?thesis
    using greeting_matches_inside_words [OF a1 a2 a3, of asciiEngine 0]
    by (simp only: chatRequest_def)
qed

subsection \<open>The fault path\<close>

text \<open>
  Claim C8. When \<open>message\<close> is a string that is not empty once trimmed, nothing in the
  \<open>try\<close> block throws: the method calls all find a string, the block ends by sending
  status 200, and the \<open>catch\<close> with its status 500 is not entered.
\<close>

theorem valid_message_never_faults:
  assumes "map_of props (js ''message'') = Some (JString m)" and "trim m \<noteq> []"
  shows "(\<exists>t. callTrim eng (JString m) = Inr t)
         \<and> (\<exists>l. callToLowerCase eng (JString m) = Inr l)
         \<and> (\<exists>u. callToUpperCase eng (JString m) = Inr u)
         \<and> (\<forall>e. tryBlock eng now (JObject props) \<noteq> Inl e)
         \<and> (\<exists>res. tryBlock eng now (JObject props) = Inr res
                \<and> chatHandler eng now (JObject props) = Inr res
                \<and> status res = 200)"
proof -
  have "getMessage eng (JObject props) = Inr (JString m)"
    using assms(1) by (rule getMessage_field)
  then have t: "tryBlock eng now (JObject props) =
           Inr (success (if includes_js (toLowerCase eng m) (js ''hello'')
                            \<or> includes_js (toLowerCase eng m) (js ''hi'')
                         then greeting else botSaysPrefix @ toUpperCase eng m) now)"
    using assms(2) by (rule tryBlock_valid)
  then have "chatHandler eng now (JObject props) =
           Inr (success (if includes_js (toLowerCase eng m) (js ''hello'')
                            \<or> includes_js (toLowerCase eng m) (js ''hi'')
                         then greeting else botSaysPrefix @ toUpperCase eng m) now)"
    by (rule chatHandler_Inr)
  with t show ?thesis by (simp add: success_def)
qed

theorem valid_message_never_faults_witness:
  "(\<forall>e. tryBlock asciiEngine 0 (chatRequest (JString (js ''test''))) \<noteq> Inl e)
   \<and> (\<exists>res. tryBlock asciiEngine 0 (chatRequest (JString (js ''test''))) = Inr res
          \<and> chatHandler asciiEngine 0 (chatRequest (JString (js ''test''))) = Inr res
          \<and> status res = 200)"
proof -
  have a1: "map_of [(js ''message'', JString (js ''test''))] (js ''message'')
              = Some (JString (js ''test''))"
    by simp
  have a2: "trim (js ''test'') \<noteq> []"
    by (simp add: js_def trim_def trimStart_def trimEnd_def isWhiteSpace_def)
  show ?thesis
    using valid_message_never_faults [OF a1 a2, of asciiEngine 0]
    unfolding chatRequest_def by blast
qed

text \<open>
  Claim C6. A fault thrown inside the \<open>try\<close> block is caught: the handler then answers
  with status 500, the \<open>error\<close> "An unexpected error occurred while processing your
  request.", the fault's message as \<open>details\<close> and a \<open>backendSignature\<close> that starts
  with "Error processed by". Whatever the request, the handler ends with a response and
  no fault leaves it.
\<close>

theorem fault_is_reported_as_500:
  "(\<exists>res. chatHandler eng now reqBody = Inr res)
   \<and> (\<forall>e. tryBlock eng now reqBody = Inl e \<longrightarrow>
          chatHandler eng now reqBody =
            Inr \<lparr>status = 500,
                 body = [(js ''error'',
                            JString (js ''An unexpected error occurred while processing your request.'')),
                         (js ''details'', JString (message_of e)),
                         (js ''backendSignature'',
                            JString (js ''Error processed by EchoBot 9000 @ '' @ toISOString now))]\<rparr>)"
proof
  show "\<exists>res. chatHandler eng now reqBody = Inr res"
    by (cases eng reqBody rule: chatHandler_cases) (simp_all add: catchBlock_def)
next
  show "\<forall>e. tryBlock eng now reqBody = Inl e \<longrightarrow>
          chatHandler eng now reqBody =
            Inr \<lparr>status = 500,
                 body = [(js ''error'',
                            JString (js ''An unexpected error occurred while processing your request.'')),
                         (js ''details'', JString (message_of e)),
                         (js ''backendSignature'',
                            JString (js ''Error processed by EchoBot 9000 @ '' @ toISOString now))]\<rparr>"
    by (simp add: chatHandler_def catchBlock_def internalMessage_def errorProcessedBy_def)
qed

theorem fault_is_reported_as_500_witness:
  "tryBlock asciiEngine 0 JUndefined
     = Inl (TypeError (js ''Cannot destructure property 'message' of 'req.body' as it is undefined.''))
   \<and> chatHandler asciiEngine 0 JUndefined =
       Inr \<lparr>status = 500,
            body = [(js ''error'',
                       JString (js ''An unexpected error occurred while processing your request.'')),
                    (js ''details'',
                       JString (js ''Cannot destructure property 'message' of 'req.body' as it is undefined.'')),
                    (js ''backendSignature'',
                       JString (js ''Error processed by EchoBot 9000 @ '' @ toISOString 0))]\<rparr>"
proof -
  have t: "tryBlock asciiEngine 0 JUndefined
     = Inl (TypeError (js ''Cannot destructure property 'message' of 'req.body' as it is undefined.''))"
    by (simp add: tryBlock_def asciiEngine_def)
  show ?thesis
    using fault_is_reported_as_500 [of asciiEngine 0 JUndefined] t
    by simp
qed

subsection \<open>White space in the echo, and the shape of the bodies\<close>

lemma asciiUpper_space: "c \<in> {0x09, 0x0A, 0x0B, 0x0C, 0x0D, 0x20} \<Longrightarrow> asciiUpper c = c \<and> c < 0x80"
  by (auto simp: asciiUpper_def)

lemma map_asciiUpper_spaces:
  "\<forall>c \<in> set w. c \<in> {0x09, 0x0A, 0x0B, 0x0C, 0x0D, 0x20} \<Longrightarrow> map asciiUpper w = w"
  by (induction w) (simp_all add: asciiUpper_space)

lemma toUpperCase_keeps_spaces:
  assumes "\<forall>c \<in> set (lead @ trail). c \<in> {0x09, 0x0A, 0x0B, 0x0C, 0x0D, 0x20}"
  shows "\<exists>X. toUpperCase eng (lead @ core @ trail) = lead @ X @ trail"
proof -
  have lead: "\<forall>c \<in> set lead. c < 0x80" and trail: "\<forall>c \<in> set trail. c < 0x80"
    using assms asciiUpper_space by auto
  have ml: "map asciiUpper lead = lead" and mt: "map asciiUpper trail = trail"
    using assms by (auto intro: map_asciiUpper_spaces)
  obtain X where "caseConvert asciiUpper (upperTable eng) ([] @ lead) (core @ trail)
      = X @ map asciiUpper trail"
    using caseConvert_ascii_suffix [OF trail] by blast
  then have "caseConvert asciiUpper (upperTable eng) [] (lead @ core @ trail)
      = map asciiUpper lead @ X @ map asciiUpper trail"
    using caseConvert_ascii_prefix [OF lead, of asciiUpper "upperTable eng" "[]" "core @ trail"]
    by simp
  then show ?thesis by (simp add: toUpperCase_def ml mt)
qed

text \<open>
  Claim C9. The echo is built from the message as it was sent, not from the trimmed
  one: for a valid message that matches neither greeting word, the \<open>response\<close> is
  "BOT SAYS: " followed by the upper-cased untrimmed message, so the white space
  (tab, line feed, vertical tab, form feed, carriage return, space) around the text is
  still there, right after the prefix and at the end of the reply.
\<close>

theorem echo_keeps_surrounding_whitespace:
  assumes "map_of props (js ''message'') = Some (JString m)" and "trim m \<noteq> []"
      and "\<not> includes_js (toLowerCase eng m) (js ''hello'')"
      and "\<not> includes_js (toLowerCase eng m) (js ''hi'')"
      and "m = lead @ core @ trail"
      and "\<forall>c \<in> set (lead @ trail). c \<in> {0x09, 0x0A, 0x0B, 0x0C, 0x0D, 0x20}"
  shows "\<exists>res X. chatHandler eng now (JObject props) = Inr res
           \<and> status res = 200
           \<and> field res ''response'' = Some (JString (js ''BOT SAYS: '' @ toUpperCase eng m))
           \<and> toUpperCase eng m = lead @ X @ trail"
proof -
  have "chatHandler eng now (JObject props) = Inr (success (botSaysPrefix @ toUpperCase eng m) now)"
    using chatHandler_valid [OF assms(1,2), of eng now] assms(3,4) by simp
  moreover have "field (success (botSaysPrefix @ toUpperCase eng m) now) ''response''
                   = Some (JString (js ''BOT SAYS: '' @ toUpperCase eng m))"
    by (simp add: field_def success_def botSaysPrefix_def)
  moreover obtain X where "toUpperCase eng m = lead @ X @ trail"
    using toUpperCase_keeps_spaces [OF assms(6), of eng core] assms(5) by blast
  ultimately show ?thesis by (simp add: success_def)
qed

theorem echo_keeps_surrounding_whitespace_witness:
  "\<exists>res. chatHandler asciiEngine 0 (chatRequest (JString (js '' test ''))) = Inr res
         \<and> status res = 200
         \<and> field res ''response'' = Some (JString (js ''BOT SAYS:  TEST ''))"
proof -
  have a1: "map_of [(js ''message'', JString (js '' test ''))] (js ''message'')
              = Some (JString (js '' test ''))"
    by simp
  have a2: "trim (js '' test '') \<noteq> []"
    by (simp add: js_def trim_def trimStart_def trimEnd_def isWhiteSpace_def)
  have a3: "\<not> includes_js (toLowerCase asciiEngine (js '' test '')) (js ''hello'')"
    by (simp add: js_def toLowerCase_def asciiLower_def)
  have a4: "\<not> includes_js (toLowerCase asciiEngine (js '' test '')) (js ''hi'')"
    by (simp add: js_def toLowerCase_def asciiLower_def)
  have a5: "js '' test '' = js '' '' @ js ''test'' @ js '' ''"
    by (simp add: js_def)
  have a6: "\<forall>c \<in> set (js '' '' @ js '' ''). c \<in> {0x09, 0x0A, 0x0B, 0x0C, 0x0D, 0x20}"
    by (simp add: js_def)
  have up: "js ''BOT SAYS: '' @ toUpperCase asciiEngine (js '' test '') = js ''BOT SAYS:  TEST ''"
    by (simp add: js_def toUpperCase_def asciiUpper_def)
  show ?thesis
    using echo_keeps_surrounding_whitespace [OF a1 a2 a3 a4 a5 a6, of 0]
    unfolding chatRequest_def up by blast
qed

text \<open>
  Claim C10. A response has a \<open>details\<close> field only when its status is 500. A request
  that fails validation gets status 400 and a body with the two fields \<open>error\<close> and
  \<open>backendSignature\<close>, in that order, and nothing else: no \<open>details\<close>, no \<open>response\<close>.
\<close>

theorem details_only_with_500:
  assumes "chatHandler eng now reqBody = Inr res"
  shows "(field res ''details'' \<noteq> None \<longrightarrow> status res = 500)
         \<and> ((\<exists>message. getMessage eng reqBody = Inr message
                \<and> validationFails eng message = Inr True)
              \<longrightarrow> status res = 400
                  \<and> map fst (body res) = [js ''error'', js ''backendSignature'']
                  \<and> field res ''details'' = None
                  \<and> field res ''response'' = None)"
proof (cases eng reqBody rule: chatHandler_cases)
  case (fault e)
  then have "res = \<lparr>status = 500,
                 body = [(js ''error'', JString internalMessage),
                         (js ''details'', JString (message_of e)),
                         (js ''backendSignature'', JString (errorProcessedBy @ toISOString now))]\<rparr>"
    using assms by (simp add: catchBlock_def)
  with fault(1) show ?thesis by simp
next
  case (invalid v)
  then have "res = badRequest now" using assms by simp
  then show ?thesis by (simp add: badRequest_def field_def js_def)
next
  case (valid m)
  have "chatHandler eng now reqBody =
             Inr (success (if includes_js (toLowerCase eng m) (js ''hello'')
                              \<or> includes_js (toLowerCase eng m) (js ''hi'')
                           then greeting else botSaysPrefix @ toUpperCase eng m) now)"
    by (rule valid(4))
  then obtain reply where "res = success reply now" using assms by auto
  then have "status res = 200" and "field res ''details'' = None"
    by (simp_all add: success_def field_def js_def)
  moreover have "validationFails eng (JString m) = Inr False"
    using valid(2) by (simp add: validationFails_string)
  ultimately show ?thesis using valid(1) by simp
qed

theorem details_only_with_500_witness:
  "status (badRequest 0) = 400
   \<and> map fst (body (badRequest 0)) = [js ''error'', js ''backendSignature'']
   \<and> field (badRequest 0) ''details'' = None
   \<and> field (badRequest 0) ''response'' = None"
proof -
  have run: "chatHandler asciiEngine 0 (JObject []) = Inr (badRequest 0)"
    by (simp add: chatHandler_def tryBlock_def validationFails_def)
  have "getMessage asciiEngine (JObject []) = Inr JUndefined
          \<and> validationFails asciiEngine JUndefined = Inr True"
    by (simp add: validationFails_def)
  then have "\<exists>message. getMessage asciiEngine (JObject []) = Inr message
                \<and> validationFails asciiEngine message = Inr True"
    by blast
  then show ?thesis
    using details_only_with_500 [OF run] by blast
qed

subsection \<open>The clock is the only thing that varies\<close>

text \<open>
  Claim C7. Two runs of the handler on the same request body give the same status and
  the same \<open>response\<close>, \<open>error\<close> and \<open>details\<close>. The two bodies are equal up to the
  last field, \<open>backendSignature\<close>, which is the same tag followed by the time of each run.
\<close>

theorem runs_differ_only_in_timestamp:
  "\<exists>res1 res2 fixed tag.
       chatHandler eng now1 reqBody = Inr res1
     \<and> chatHandler eng now2 reqBody = Inr res2
     \<and> status res1 = status res2
     \<and> field res1 ''response'' = field res2 ''response''
     \<and> field res1 ''error'' = field res2 ''error''
     \<and> field res1 ''details'' = field res2 ''details''
     \<and> body res1 = fixed @ [(js ''backendSignature'', JString (tag @ toISOString now1))]
     \<and> body res2 = fixed @ [(js ''backendSignature'', JString (tag @ toISOString now2))]"
proof (cases eng reqBody rule: chatHandler_cases)
  case (fault e)
  let ?fixed = "[(js ''error'', JString internalMessage), (js ''details'', JString (message_of e))]"
  have "chatHandler eng now reqBody =
          Inr \<lparr>status = 500,
               body = ?fixed @ [(js ''backendSignature'', JString (errorProcessedBy @ toISOString now))]\<rparr>"
    for now
    by (simp add: fault(3) catchBlock_def)
  then show ?thesis by (simp add: field_def js_def)
next
  case (invalid v)
  let ?fixed = "[(js ''error'', JString validationMessage)]"
  have "chatHandler eng now reqBody =
          Inr \<lparr>status = 400,
               body = ?fixed @ [(js ''backendSignature'', JString (errorProcessedBy @ toISOString now))]\<rparr>"
    for now
    by (simp add: invalid(4) badRequest_def)
  then show ?thesis by (simp add: field_def js_def)
next
  case (valid m)
  define reply where "reply = (if includes_js (toLowerCase eng m) (js ''hello'')
                              \<or> includes_js (toLowerCase eng m) (js ''hi'')
                           then greeting else botSaysPrefix @ toUpperCase eng m)"
  let ?fixed = "[(js ''response'', JString reply)]"
  have "chatHandler eng now reqBody =
          Inr \<lparr>status = 200,
               body = ?fixed @ [(js ''backendSignature'', JString (processedBy @ toISOString now))]\<rparr>"
    for now
    by (simp add: valid(4) success_def reply_def)
  then show ?thesis by (simp add: field_def js_def)
qed

theorem runs_differ_only_in_timestamp_witness:
  "\<exists>res1 res2 fixed tag.
       chatHandler asciiEngine 0 (chatRequest (JString (js ''test''))) = Inr res1
     \<and> chatHandler asciiEngine 1750649014123 (chatRequest (JString (js ''test''))) = Inr res2
     \<and> status res1 = status res2
     \<and> field res1 ''response'' = field res2 ''response''
     \<and> field res1 ''error'' = field res2 ''error''
     \<and> field res1 ''details'' = field res2 ''details''
     \<and> body res1 = fixed @ [(js ''backendSignature'', JString (tag @ toISOString 0))]
     \<and> body res2 = fixed @ [(js ''backendSignature'', JString (tag @ toISOString 1750649014123))]"
  by (rule runs_differ_only_in_timestamp)

subsection \<open>Calendar arithmetic\<close>

lemma div_lower: "0 < b \<Longrightarrow> b * (a div b) \<le> (a::int)"
proof -
  assume "0 < b"
  then have "0 \<le> a mod b" by simp
  moreover have "b * (a div b) + a mod b = a" by simp
  ultimately show ?thesis by linarith
qed

lemma div_upper: "0 < b \<Longrightarrow> (a::int) < b * (a div b) + b"
proof -
  assume "0 < b"
  then have "a mod b < b" by simp
  moreover have "b * (a div b) + a mod b = a" by simp
  ultimately show ?thesis by linarith
qed

lemma DayFromYear_bounds:
  "146097 * y - 506 \<le> 400 * DayFromYear y + 287811090"
  "400 * DayFromYear y + 287811090 \<le> 146097 * y + 589"
proof -
  define q1 where "q1 = (y - 1969) div 4"
  define q2 where "q2 = (y - 1901) div 100"
  define q3 where "q3 = (y - 1601) div 400"
  have l1: "4 * q1 \<le> y - 1969" unfolding q1_def by (rule div_lower) simp
  have u1: "y - 1969 < 4 * q1 + 4" unfolding q1_def by (rule div_upper) simp
  have l2: "100 * q2 \<le> y - 1901" unfolding q2_def by (rule div_lower) simp
  have u2: "y - 1901 < 100 * q2 + 100" unfolding q2_def by (rule div_upper) simp
  have l3: "400 * q3 \<le> y - 1601" unfolding q3_def by (rule div_lower) simp
  have u3: "y - 1601 < 400 * q3 + 400" unfolding q3_def by (rule div_upper) simp
  have d: "400 * DayFromYear y = 146000 * y - 287620000 + 400 * q1 - 400 * q2 + 400 * q3"
    unfolding DayFromYear_def q1_def q2_def q3_def by simp
  show "146097 * y - 506 \<le> 400 * DayFromYear y + 287811090"
    unfolding d using l1 u1 l2 u2 l3 u3 by linarith
  show "400 * DayFromYear y + 287811090 \<le> 146097 * y + 589"
    unfolding d using l1 u1 l2 u2 l3 u3 by linarith
qed

lemma YearFromTime_correct:
  "DayFromYear (YearFromTime t) \<le> Day t" "Day t < DayFromYear (YearFromTime t + 1)"
proof -
  define d where "d = Day t"
  define k where "k = (400 * d) div 146097"
  have lk: "146097 * k \<le> 400 * d" unfolding k_def by (rule div_lower) simp
  have uk: "400 * d < 146097 * k + 146097" unfolding k_def by (rule div_upper) simp
  have y: "YearFromTime t =
            (if d < DayFromYear (1970 + k) then 1970 + k - 1
             else if DayFromYear (1970 + k + 1) \<le> d then 1970 + k + 1
             else 1970 + k)"
    unfolding YearFromTime_def Let_def d_def k_def ..
  have "146097 * (1970 + k - 1) = 146097 * k + 287664993" by simp
  then have below: "DayFromYear (1970 + k - 1) \<le> d"
    using DayFromYear_bounds(2) [of "1970 + k - 1"] lk by linarith
  have "146097 * (1970 + k + 1 + 1) = 146097 * k + 288103284" by simp
  then have above: "d < DayFromYear (1970 + k + 1 + 1)"
    using DayFromYear_bounds(1) [of "1970 + k + 1 + 1"] uk by linarith
  have "DayFromYear (YearFromTime t) \<le> d \<and> d < DayFromYear (YearFromTime t + 1)"
  proof (cases "d < DayFromYear (1970 + k)")
    case True
    then have "YearFromTime t = 1970 + k - 1" by (simp add: y)
    moreover have "1970 + k - 1 + 1 = 1970 + k" by simp
    ultimately show ?thesis using True below by simp
  next
    case False
    show ?thesis
    proof (cases "DayFromYear (1970 + k + 1) \<le> d")
      case True
      then have "YearFromTime t = 1970 + k + 1" using False by (simp add: y)
      then show ?thesis using True above by simp
    next
      case nle: False
      then have "YearFromTime t = 1970 + k" using False by (simp add: y)
      then show ?thesis using False nle by simp
    qed
  qed
  then show "DayFromYear (YearFromTime t) \<le> Day t" "Day t < DayFromYear (YearFromTime t + 1)"
    by (simp_all add: d_def)
qed

lemma div_succ:
  assumes "0 < (b::int)"
  shows "(a + 1) div b = a div b + (if (a + 1) mod b = 0 then 1 else 0)"
proof (cases "(a + 1) mod b = 0")
  case True
  have "b * ((a + 1) div b) + (a + 1) mod b = a + 1" by simp
  with True have "a = b * ((a + 1) div b - 1) + (b - 1)" by (simp add: algebra_simps)
  then have "a div b = (a + 1) div b - 1"
    using assms by (intro int_div_pos_eq [where r = "b - 1"]) simp_all
  with True show ?thesis by simp
next
  case False
  define r where "r = (a + 1) mod b"
  have "0 \<le> r" unfolding r_def using assms by (rule pos_mod_sign)
  moreover have "r \<noteq> 0" using False by (simp add: r_def)
  ultimately have r0: "0 \<le> r - 1" by linarith
  have "r < b" unfolding r_def using assms by (rule pos_mod_bound)
  then have r1: "r - 1 < b" by linarith
  have "b * ((a + 1) div b) + r = a + 1" by (simp add: r_def)
  then have "a = b * ((a + 1) div b) + (r - 1)" by simp
  then have "a div b = (a + 1) div b"
    using r0 r1 by (rule int_div_pos_eq)
  with False show ?thesis by simp
qed

lemma mod_shift: "((y::int) - k * b) mod b = y mod b"
proof -
  have "(y + (- k) * b) mod b = y mod b" by (rule mod_mult_self1)
  then show ?thesis by simp
qed

lemma mod_zero_coarser: "(y::int) mod (a * b) = 0 \<Longrightarrow> y mod a = 0"
proof -
  assume "y mod (a * b) = 0"
  then have "a * b dvd y" by (rule mod_0_imp_dvd)
  moreover have "a dvd a * b" by simp
  ultimately have "a dvd y" by (rule dvd_trans [rotated])
  then show ?thesis by simp
qed

lemma DayFromYear_Suc: "DayFromYear (y + 1) = DayFromYear y + DaysInYear y"
proof -
  define p4 where "p4 \<longleftrightarrow> y mod 4 = 0"
  define p100 where "p100 \<longleftrightarrow> y mod 100 = 0"
  define p400 where "p400 \<longleftrightarrow> y mod 400 = 0"
  define q1 where "q1 = (y - 1969) div 4"
  define q2 where "q2 = (y - 1901) div 100"
  define q3 where "q3 = (y - 1601) div 400"
  have "(y - 492 * 4) mod 4 = y mod 4" by (rule mod_shift)
  then have m4: "(y - 1969 + 1) mod 4 = 0 \<longleftrightarrow> p4" by (simp add: p4_def)
  have "(y - 19 * 100) mod 100 = y mod 100" by (rule mod_shift)
  then have m100: "(y - 1901 + 1) mod 100 = 0 \<longleftrightarrow> p100" by (simp add: p100_def)
  have "(y - 4 * 400) mod 400 = y mod 400" by (rule mod_shift)
  then have m400: "(y - 1601 + 1) mod 400 = 0 \<longleftrightarrow> p400" by (simp add: p400_def)
  have s4: "(y + 1 - 1969) div 4 = q1 + (if p4 then 1 else 0)"
    using div_succ [of 4 "y - 1969"] m4 by (simp add: q1_def)
  have s100: "(y + 1 - 1901) div 100 = q2 + (if p100 then 1 else 0)"
    using div_succ [of 100 "y - 1901"] m100 by (simp add: q2_def)
  have s400: "(y + 1 - 1601) div 400 = q3 + (if p400 then 1 else 0)"
    using div_succ [of 400 "y - 1601"] m400 by (simp add: q3_def)
  have i1: "p100 \<Longrightarrow> p4"
    unfolding p100_def p4_def using mod_zero_coarser [of y 4 25] by simp
  have i2: "p400 \<Longrightarrow> p100"
    unfolding p400_def p100_def using mod_zero_coarser [of y 100 4] by simp
  have dy: "DaysInYear y = (if \<not> p4 then 365 else if \<not> p100 then 366 else if \<not> p400 then 365 else 366)"
    unfolding DaysInYear_def p4_def p100_def p400_def ..
  have d1: "DayFromYear (y + 1) = 365 * (y + 1 - 1970) + (q1 + (if p4 then 1 else 0))
              - (q2 + (if p100 then 1 else 0)) + (q3 + (if p400 then 1 else 0))"
    unfolding DayFromYear_def s4 s100 s400 ..
  have d0: "DayFromYear y = 365 * (y - 1970) + q1 - q2 + q3"
    unfolding DayFromYear_def q1_def q2_def q3_def ..
  show ?thesis
    unfolding d1 d0 dy using i1 i2 by (cases p4; cases p100; cases p400; simp)
qed

lemma time_recompose:
  "MakeTime (HourFromTime t) (MinFromTime t) (SecFromTime t) (msFromTime t) = TimeWithinDay t"
proof -
  have a: "t mod (1000 * 60) = 1000 * ((t div 1000) mod 60) + t mod 1000"
    by (rule zmod_zmult2_eq) simp
  have b: "t mod (60000 * 60) = 60000 * ((t div 60000) mod 60) + t mod 60000"
    by (rule zmod_zmult2_eq) simp
  have c: "t mod (3600000 * 24) = 3600000 * ((t div 3600000) mod 24) + t mod 3600000"
    by (rule zmod_zmult2_eq) simp
  from a b c show ?thesis
    by (simp add: MakeTime_def HourFromTime_def MinFromTime_def SecFromTime_def msFromTime_def
        TimeWithinDay_def msPerDay_def msPerHour_def msPerMinute_def msPerSecond_def)
qed

lemma date_recompose: "MakeDate (Day t) (TimeWithinDay t) = t"
  by (simp add: MakeDate_def Day_def TimeWithinDay_def)

lemma time_fields_range:
  "0 \<le> HourFromTime t \<and> HourFromTime t < 24"
  "0 \<le> MinFromTime t \<and> MinFromTime t < 60"
  "0 \<le> SecFromTime t \<and> SecFromTime t < 60"
  "0 \<le> msFromTime t \<and> msFromTime t < 1000"
  by (simp_all add: HourFromTime_def MinFromTime_def SecFromTime_def msFromTime_def msPerSecond_def)

lemma InLeapYear_cases: "InLeapYear t = 0 \<or> InLeapYear t = 1"
  by (simp add: InLeapYear_def)

lemma DayWithinYear_range: "0 \<le> DayWithinYear t" "DayWithinYear t < 365 + InLeapYear t"
proof -
  show "0 \<le> DayWithinYear t"
    using YearFromTime_correct(1) [of t] by (simp add: DayWithinYear_def)
  have "DaysInYear (YearFromTime t) = 365 + InLeapYear t"
    by (simp add: InLeapYear_def DaysInYear_def)
  then show "DayWithinYear t < 365 + InLeapYear t"
    using YearFromTime_correct(2) [of t] DayFromYear_Suc [of "YearFromTime t"]
    by (simp add: DayWithinYear_def)
qed

lemma MonthFromTime_range: "0 \<le> MonthFromTime t \<and> MonthFromTime t \<le> 11"
  by (simp add: MonthFromTime_def Let_def)

lemma DateFromTime_eq:
  "DateFromTime t = DayWithinYear t - DayFromMonth (MonthFromTime t) (InLeapYear t) + 1"
  by (simp add: DateFromTime_def DayFromMonth_def Let_def)

lemma DateFromTime_range: "1 \<le> DateFromTime t \<and> DateFromTime t \<le> 31"
proof -
  define d where "d = DayWithinYear t"
  define l where "l = InLeapYear t"
  have d: "0 \<le> d" "d < 365 + l" and l: "l = 0 \<or> l = 1"
    using DayWithinYear_range [of t] InLeapYear_cases [of t] by (simp_all add: d_def l_def)
  have m: "MonthFromTime t =
     (if d < 31 then 0
         else if d < 59 + l then 1
         else if d < 90 + l then 2
         else if d < 120 + l then 3
         else if d < 151 + l then 4
         else if d < 181 + l then 5
         else if d < 212 + l then 6
         else if d < 243 + l then 7
         else if d < 273 + l then 8
         else if d < 304 + l then 9
         else if d < 334 + l then 10
         else 11)"
    unfolding MonthFromTime_def Let_def d_def l_def ..
  have "1 \<le> d - DayFromMonth (MonthFromTime t) l + 1 \<and> d - DayFromMonth (MonthFromTime t) l + 1 \<le> 31"
    unfolding m DayFromMonth_def using d l by auto
  then show ?thesis by (simp add: DateFromTime_eq d_def l_def)
qed

lemma day_recompose: "MakeDay (YearFromTime t) (MonthFromTime t) (DateFromTime t) = Day t"
proof -
  have "(if DaysInYear (YearFromTime t) = 366 then 1 else 0) = InLeapYear t"
    by (simp add: InLeapYear_def)
  then show ?thesis
    by (simp add: MakeDay_def DateFromTime_eq DayWithinYear_def)
qed

lemma YearFromTime_range:
  assumes "\<bar>t\<bar> \<le> maxTimeValue"
  shows "- 271822 \<le> YearFromTime t" "YearFromTime t \<le> 275760"
proof -
  have "- 100000000 * msPerDay \<le> t" "t \<le> 100000000 * msPerDay"
    using assms by (simp_all add: maxTimeValue_def msPerDay_def)
  then have d: "- 100000000 \<le> Day t" "Day t \<le> 100000000"
    unfolding Day_def by (simp_all add: msPerDay_def zdiv_mono1 [of _ _ 86400000, simplified] div_le_mono)
  have "146097 * (YearFromTime t + 1) = 146097 * YearFromTime t + 146097" by simp
  then show "- 271822 \<le> YearFromTime t"
    using DayFromYear_bounds(2) [of "YearFromTime t + 1"] YearFromTime_correct(2) [of t] d(1)
    by linarith
  show "YearFromTime t \<le> 275760"
    using DayFromYear_bounds(1) [of "YearFromTime t"] YearFromTime_correct(1) [of t] d(2)
    by linarith
qed

subsection \<open>Printing and reading digits\<close>

lemma digitChar_digit:
  assumes "n < 10"
  shows "0x30 \<le> digitChar n" "digitChar n \<le> 0x39" "unat (digitChar n - 0x30) = n"
proof -
  have "digitChar n = 0x30 + of_nat n" by (simp add: digitChar_def)
  moreover have "unat (0x30 + of_nat n :: code_unit) = 48 + n"
    using assms by (simp add: unat_word_ariths unat_of_nat)
  ultimately have u: "unat (digitChar n) = 48 + n" by simp
  show "0x30 \<le> digitChar n" using u by (simp add: word_le_nat_alt)
  show "digitChar n \<le> 0x39" using u assms by (simp add: word_le_nat_alt)
  show "unat (digitChar n - 0x30) = n" by (simp add: digitChar_def)
    (use assms in \<open>simp add: unat_of_nat\<close>)
qed

lemma digitsValue_append:
  "digitsValue acc (xs @ ys) = Option.bind (digitsValue acc xs) (\<lambda>a. digitsValue a ys)"
  by (induction xs arbitrary: acc) simp_all

lemma digitsValue_decimal: "digitsValue acc (decimal n) = Some (acc * 10 ^ length (decimal n) + n)"
proof (induction n arbitrary: acc rule: decimal.induct)
  case (1 n)
  show ?case
  proof (cases "n < 10")
    case True
    then show ?thesis by (simp add: decimal.simps [of n] digitChar_digit)
  next
    case False
    have "n mod 10 < 10" by simp
    then have "digitsValue a [digitChar (n mod 10)] = Some (10 * a + n mod 10)" for a
      by (simp add: digitChar_digit)
    then show ?thesis
      using False "1.IH" [OF False]
      by (simp add: decimal.simps [of n] digitsValue_append algebra_simps)
  qed
qed

lemma digitsValue_zeros: "digitsValue 0 (replicate j 0x30 @ s) = digitsValue 0 s"
  by (induction j) simp_all

lemma length_decimal: "0 < k \<Longrightarrow> n < 10 ^ k \<Longrightarrow> length (decimal n) \<le> k"
proof (induction n arbitrary: k rule: decimal.induct)
  case (1 n)
  show ?case
  proof (cases "n < 10")
    case True
    then show ?thesis using "1.prems" by (simp add: decimal.simps [of n])
  next
    case False
    then obtain j where k: "k = Suc j" using "1.prems" by (cases k) auto
    have "0 < j" using False "1.prems" k by (cases j) auto
    moreover have "n div 10 < 10 ^ j" using "1.prems" k by (simp add: less_mult_imp_div_less mult.commute)
    ultimately have "length (decimal (n div 10)) \<le> j" using "1.IH" [OF False] by blast
    then show ?thesis using False k by (simp add: decimal.simps [of n])
  qed
qed

lemma decimal_digits: "c \<in> set (decimal n) \<Longrightarrow> 0x30 \<le> c \<and> c \<le> 0x39"
proof (induction n rule: decimal.induct)
  case (1 n)
  show ?case
  proof (cases "n < 10")
    case True
    then show ?thesis using "1.prems" by (auto simp: decimal.simps [of n] digitChar_digit)
  next
    case False
    have "n mod 10 < 10" by simp
    then show ?thesis
      using False "1.prems" "1.IH" [OF False]
      by (auto simp: decimal.simps [of n] digitChar_digit)
  qed
qed

lemma decimal_not_Nil: "decimal n \<noteq> []"
  by (simp add: decimal.simps [of n])

lemma padZero_length: "0 < k \<Longrightarrow> n < 10 ^ k \<Longrightarrow> length (padZero k n) = k"
  using length_decimal [of k n] by (simp add: padZero_def Let_def)

lemma padZero_value: "digitsValue 0 (padZero k n) = Some n"
  by (simp add: padZero_def Let_def digitsValue_zeros digitsValue_decimal)

lemma padZero_head: "\<exists>d ds. padZero k n = d # ds \<and> 0x30 \<le> d \<and> d \<le> 0x39"
proof -
  have "padZero k n \<noteq> []" by (simp add: padZero_def Let_def decimal_not_Nil)
  then obtain d ds where p: "padZero k n = d # ds" by (cases "padZero k n") auto
  have "d \<in> set (padZero k n)" by (simp add: p)
  then have "d = 0x30 \<or> d \<in> set (decimal n)" by (auto simp: padZero_def Let_def)
  then have "0x30 \<le> d \<and> d \<le> 0x39" using decimal_digits by auto
  with p show ?thesis by blast
qed

lemma digitsN_padZero:
  assumes "0 < k" and "n < 10 ^ k"
  shows "digitsN k (padZero k n @ rest) = Some (n, rest)"
  using padZero_length [OF assms] by (simp add: digitsN_def padZero_value)

lemma expect_literal: "expect c (c # rest) = Some rest"
  by (simp add: expect_def)

lemma parseYear_yearString:
  assumes "- 1000000 < y" and "y < 1000000"
  shows "parseYear (yearString y @ rest) = Some (y, rest)"
proof -
  consider (plain) "0 \<le> y" "y \<le> 9999" | (plus) "9999 < y" | (minus) "y < 0" by linarith
  then show ?thesis
  proof cases
    case plain
    obtain d ds where p: "padZero 4 (nat y) = d # ds" "0x30 \<le> d" using padZero_head by blast
    have "d \<noteq> 0x2B" "d \<noteq> 0x2D" using p(2) by auto
    moreover have "digitsN 4 (padZero 4 (nat y) @ rest) = Some (nat y, rest)"
      using plain by (intro digitsN_padZero) simp_all
    ultimately show ?thesis
      using plain p(1) by (simp add: parseYear_def yearString_def)
  next
    case plus
    have "digitsN 6 (padZero 6 (nat \<bar>y\<bar>) @ rest) = Some (nat \<bar>y\<bar>, rest)"
      using assms by (intro digitsN_padZero) simp_all
    then show ?thesis
      using plus by (simp add: parseYear_def yearString_def js_def)
  next
    case minus
    have "digitsN 6 (padZero 6 (nat \<bar>y\<bar>) @ rest) = Some (nat \<bar>y\<bar>, rest)"
      using assms by (intro digitsN_padZero) simp_all
    then show ?thesis
      using minus by (simp add: parseYear_def yearString_def js_def)
  qed
qed

text \<open>What \<open>toISOString\<close> prints, \<open>parseISO\<close> reads back as the same time value.\<close>

lemma parseISO_toISOString:
  assumes "\<bar>t\<bar> \<le> maxTimeValue"
  shows "parseISO (toISOString t) = Some t"
proof -
  define mo where "mo = nat (MonthFromTime t + 1)"
  define d where "d = nat (DateFromTime t)"
  define h where "h = nat (HourFromTime t)"
  define mi where "mi = nat (MinFromTime t)"
  define sec where "sec = nat (SecFromTime t)"
  define ms where "ms = nat (msFromTime t)"
  have y: "- 1000000 < YearFromTime t" "YearFromTime t < 1000000"
    using YearFromTime_range [OF assms] by simp_all
  have mo: "int mo - 1 = MonthFromTime t" "1 \<le> mo" "mo \<le> 12" "mo < 10 ^ 2"
    using MonthFromTime_range [of t] by (auto simp: mo_def)
  have d: "int d = DateFromTime t" "1 \<le> d" "d \<le> 31" "d < 10 ^ 2"
    using DateFromTime_range [of t] by (auto simp: d_def)
  have h: "int h = HourFromTime t" "h < 24" "h < 10 ^ 2"
    using time_fields_range(1) [of t] by (auto simp: h_def)
  have mi: "int mi = MinFromTime t" "mi < 60" "mi < 10 ^ 2"
    using time_fields_range(2) [of t] by (auto simp: mi_def)
  have sec: "int sec = SecFromTime t" "sec < 60" "sec < 10 ^ 2"
    using time_fields_range(3) [of t] by (auto simp: sec_def)
  have ms: "int ms = msFromTime t" "ms < 10 ^ 3"
    using time_fields_range(4) [of t] by (auto simp: ms_def)
  have lit: "js ''-'' = [0x2D]" "js ''T'' = [0x54]" "js '':'' = [0x3A]" "js ''.'' = [0x2E]"
    "js ''Z'' = [0x5A]"
    by (simp_all add: js_def)
  have iso: "toISOString t =
     yearString (YearFromTime t) @ 0x2D # padZero 2 mo @ 0x2D # padZero 2 d @ 0x54 # padZero 2 h
       @ 0x3A # padZero 2 mi @ 0x3A # padZero 2 sec @ 0x2E # padZero 3 ms @ [0x5A]"
    by (simp add: toISOString_def lit mo_def d_def h_def mi_def sec_def ms_def)
  have recompose: "MakeDate (MakeDay (YearFromTime t) (int mo - 1) (int d))
                (MakeTime (int h) (int mi) (int sec) (int ms)) = t"
    by (simp add: mo(1) d(1) h(1) mi(1) sec(1) ms(1) day_recompose time_recompose date_recompose)
  show ?thesis
    unfolding iso parseISO_def
    using mo(2-) d(2-) h(2-) mi(2-) sec(2-) ms(2-) assms
    by (simp add: parseYear_yearString [OF y] expect_literal digitsN_padZero recompose)
qed

subsection \<open>The signature\<close>

lemma signature_tags:
  "processedBy = js ''Processed'' @ js '' by EchoBot 9000 @ ''"
  "errorProcessedBy = js ''Error processed'' @ js '' by EchoBot 9000 @ ''"
  by (simp_all add: processedBy_def errorProcessedBy_def js_def)

lemma signature_field:
  "field (success reply now) ''backendSignature'' = Some (JString (processedBy @ toISOString now))"
  "field (badRequest now) ''backendSignature'' = Some (JString (errorProcessedBy @ toISOString now))"
  "catchBlock now e = Inr res \<Longrightarrow>
     field res ''backendSignature'' = Some (JString (errorProcessedBy @ toISOString now))"
  by (auto simp: field_def success_def badRequest_def catchBlock_def js_def)

text \<open>
  Claim C5. Every response of the handler, whatever its status (200, 400 or 500), has a
  \<open>backendSignature\<close> that is not empty and reads
  "Processed by EchoBot 9000 @ " (status 200) or "Error processed by EchoBot 9000 @ "
  (status 400 and 500) followed by the time of the response as printed by
  \<open>toISOString\<close>; that timestamp parses back to the very time value of the clock. The
  clock reading is a time value of ECMAScript, at most 8.64e15 ms from the epoch.
\<close>

theorem every_response_is_signed:
  assumes "\<bar>now\<bar> \<le> maxTimeValue"
  shows "\<exists>res tag stamp.
           chatHandler eng now reqBody = Inr res
         \<and> (status res = 200 \<or> status res = 400 \<or> status res = 500)
         \<and> tag = (if status res = 200 then js ''Processed'' else js ''Error processed'')
         \<and> field res ''backendSignature''
              = Some (JString (tag @ js '' by EchoBot 9000 @ '' @ stamp))
         \<and> tag @ js '' by EchoBot 9000 @ '' @ stamp \<noteq> []
         \<and> stamp = toISOString now
         \<and> parseISO stamp = Some now"
proof -
  have p: "parseISO (toISOString now) = Some now"
    using assms by (rule parseISO_toISOString)
  have ne: "js ''Processed'' \<noteq> []" "js ''Error processed'' \<noteq> []"
    by (simp_all add: js_def)
  show ?thesis
  proof (cases eng reqBody rule: chatHandler_cases)
    case (fault e)
    obtain res where r: "catchBlock now e = Inr res" "status res = 500"
      by (simp add: catchBlock_def)
    then have "chatHandler eng now reqBody = Inr res" by (simp add: fault(3))
    moreover have "field res ''backendSignature''
        = Some (JString (js ''Error processed'' @ js '' by EchoBot 9000 @ '' @ toISOString now))"
      using signature_field(3) [OF r(1)] by (simp add: signature_tags)
    ultimately show ?thesis using r(2) p ne by simp
  next
    case (invalid v)
    have "status (badRequest now) = 400" by (simp add: badRequest_def)
    moreover have "field (badRequest now) ''backendSignature''
        = Some (JString (js ''Error processed'' @ js '' by EchoBot 9000 @ '' @ toISOString now))"
      by (simp add: signature_field(2) signature_tags)
    ultimately show ?thesis using invalid(4) p ne by simp
  next
    case (valid m)
    define reply where "reply = (if includes_js (toLowerCase eng m) (js ''hello'')
                              \<or> includes_js (toLowerCase eng m) (js ''hi'')
                           then greeting else botSaysPrefix @ toUpperCase eng m)"
    have run: "chatHandler eng now reqBody = Inr (success reply now)"
      unfolding reply_def by (rule valid(4))
    have "status (success reply now) = 200" by (simp add: success_def)
    moreover have "field (success reply now) ''backendSignature''
        = Some (JString (js ''Processed'' @ js '' by EchoBot 9000 @ '' @ toISOString now))"
      by (simp add: signature_field(1) signature_tags)
    ultimately show ?thesis using run p ne by simp
  qed
qed

theorem every_response_is_signed_witness:
  "\<bar>1750649014123\<bar> \<le> maxTimeValue
   \<and> toISOString 1750649014123 = js ''2025-06-23T03:23:34.123Z''
   \<and> (\<exists>res tag stamp.
           chatHandler asciiEngine 1750649014123 (chatRequest (JString (js ''test''))) = Inr res
         \<and> (status res = 200 \<or> status res = 400 \<or> status res = 500)
         \<and> tag = (if status res = 200 then js ''Processed'' else js ''Error processed'')
         \<and> field res ''backendSignature''
              = Some (JString (tag @ js '' by EchoBot 9000 @ '' @ stamp))
         \<and> tag @ js '' by EchoBot 9000 @ '' @ stamp \<noteq> []
         \<and> stamp = toISOString 1750649014123
         \<and> parseISO stamp = Some 1750649014123)"
proof -
  have h: "\<bar>1750649014123\<bar> \<le> maxTimeValue"
    by (simp add: maxTimeValue_def)
  have iso: "toISOString 1750649014123 = js ''2025-06-23T03:23:34.123Z''"
    by code_simp
  show ?thesis
    using h iso every_response_is_signed [OF h, of asciiEngine "chatRequest (JString (js ''test''))"]
    by blast
qed

end
